theory Spec2Isabelle
  imports Main
begin

section \<open>The credit-line registry of \<^verbatim>\<open>src/services/creditService.ts\<close>\<close>

subsection \<open>Data model\<close>

text \<open>
  \<^verbatim>\<open>CreditLineStatus = "active" | "suspended" | "closed"\<close> and the \<^verbatim>\<open>action\<close> field of
  an event, \<^verbatim>\<open>"created" | "suspended" | "closed"\<close>, are string-literal unions; each is a
  datatype with one constructor per literal.
\<close>

datatype CreditLineStatus = Active | Suspended | Closed

datatype EventAction = ActCreated | ActSuspended | ActClosed

text \<open>The optional field \<^verbatim>\<open>actor?\<close> is an option; the service never sets it.\<close>

record CreditLineEvent =
  action :: EventAction
  timestamp :: string
  actor :: "string option"

text \<open>The field \<^verbatim>\<open>id\<close> is named \<open>line_id\<close>: \<open>id\<close> is the identity function of HOL.\<close>

record CreditLine =
  line_id :: string
  status :: CreditLineStatus
  createdAt :: string
  updatedAt :: string
  events :: "CreditLineEvent list"

text \<open>
  The two exception classes, with their public fields: \<^verbatim>\<open>InvalidTransitionError\<close> carries
  \<^verbatim>\<open>currentStatus\<close> and \<^verbatim>\<open>requestedAction\<close>, \<^verbatim>\<open>CreditLineNotFoundError\<close> the id.
\<close>

datatype error =
  InvalidTransitionError CreditLineStatus string
| CreditLineNotFoundError string

subsection \<open>Objects and the store\<close>

text \<open>
  A \<^verbatim>\<open>CreditLine\<close> is a mutable JavaScript object: \<^verbatim>\<open>_store\<close> holds references, the
  operations return references, and \<^verbatim>\<open>suspendCreditLine\<close> and \<^verbatim>\<open>closeCreditLine\<close>
  assign to the fields of the object they looked up. The model keeps that apart: a
  reference is a number, \<open>heap\<close> gives the current fields of each object, and
  \<open>next_ref\<close> is the first reference not yet allocated (an object literal allocates it).
  Cells at and beyond \<open>next_ref\<close> hold no object; their content is never read.

  \<^verbatim>\<open>_store\<close> is a \<^verbatim>\<open>Map<string, CreditLine>\<close>, which iterates in the order in which its
  keys were first inserted. It is an association list in that order.
\<close>

type_synonym ref = nat

record registry =
  heap :: "ref \<Rightarrow> CreditLine"
  next_ref :: ref
  store :: "(string \<times> ref) list"

text \<open>
  \<^verbatim>\<open>Map.prototype.set\<close>: the value of a key that is present is replaced where it stands,
  a new key goes to the end. \<^verbatim>\<open>Map.prototype.get\<close> is \<^const>\<open>map_of\<close>, and
  \<^verbatim>\<open>Map.prototype.values\<close> lists the second components.
\<close>

fun map_set :: "string \<Rightarrow> ref \<Rightarrow> (string \<times> ref) list \<Rightarrow> (string \<times> ref) list" where
  "map_set k v [] = [(k, v)]"
| "map_set k v ((k', v') # kvs) =
     (if k' = k then (k, v) # kvs else (k', v') # map_set k v kvs)"

text \<open>
  The store after \<^verbatim>\<open>_resetStore()\<close>, and at module load: no key, no object. The
  content of the unallocated cells is a placeholder.
\<close>

definition blank_line :: CreditLine where
  "blank_line = \<lparr>line_id = [], status = Active, createdAt = [], updatedAt = [], events = []\<rparr>"

definition empty_registry :: registry where
  "empty_registry = \<lparr>heap = (\<lambda>_. blank_line), next_ref = 0, store = []\<rparr>"

subsection \<open>Operations\<close>

text \<open>
  \<^verbatim>\<open>now()\<close> reads the system clock. Each operation that calls it takes the string the
  clock returns at that call as its first argument \<open>ts\<close>.

  An operation that can throw returns \<open>Inl\<close> of the error and the registry as it was
  when the exception left the function.

  \<^verbatim>\<open>createCreditLine(id, status = "active")\<close>: an omitted status is \<open>None\<close>.
\<close>

definition createCreditLine ::
  "string \<Rightarrow> string \<Rightarrow> CreditLineStatus option \<Rightarrow> registry \<Rightarrow> ref \<times> registry" where
  "createCreditLine ts i st g =
     (let status0 = (case st of None \<Rightarrow> Active | Some s \<Rightarrow> s);
          line = \<lparr>line_id = i, status = status0, createdAt = ts, updatedAt = ts,
                  events = [\<lparr>action = ActCreated, timestamp = ts, actor = None\<rparr>]\<rparr>;
          r = next_ref g
      in (r, g\<lparr>heap := (heap g)(r := line), next_ref := Suc r,
               store := map_set i r (store g)\<rparr>))"

definition getCreditLine :: "string \<Rightarrow> registry \<Rightarrow> ref option" where
  "getCreditLine i g = map_of (store g) i"

definition listCreditLines :: "registry \<Rightarrow> ref list" where
  "listCreditLines g = map snd (store g)"

definition suspendCreditLine :: "string \<Rightarrow> string \<Rightarrow> registry \<Rightarrow> (error + ref) \<times> registry" where
  "suspendCreditLine ts i g =
     (case map_of (store g) i of
        None \<Rightarrow> (Inl (CreditLineNotFoundError i), g)
      | Some r \<Rightarrow>
          let line = heap g r in
          if status line \<noteq> Active
          then (Inl (InvalidTransitionError (status line) ''suspend''), g)
          else (Inr r,
                g\<lparr>heap := (heap g)(r := line\<lparr>status := Suspended, updatedAt := ts,
                     events := events line @
                       [\<lparr>action = ActSuspended, timestamp = ts, actor = None\<rparr>]\<rparr>)\<rparr>))"

definition closeCreditLine :: "string \<Rightarrow> string \<Rightarrow> registry \<Rightarrow> (error + ref) \<times> registry" where
  "closeCreditLine ts i g =
     (case map_of (store g) i of
        None \<Rightarrow> (Inl (CreditLineNotFoundError i), g)
      | Some r \<Rightarrow>
          let line = heap g r in
          if status line = Closed
          then (Inl (InvalidTransitionError (status line) ''close''), g)
          else (Inr r,
                g\<lparr>heap := (heap g)(r := line\<lparr>status := Closed, updatedAt := ts,
                     events := events line @
                       [\<lparr>action = ActClosed, timestamp = ts, actor = None\<rparr>]\<rparr>)\<rparr>))"

subsection \<open>Sequences of calls\<close>

text \<open>
  A call of one of the five exported operations, with the clock reading where the
  operation takes one, and what the call gives back. \<open>exec\<close> runs one call and returns
  the registry after it; a caught exception leaves the registry as the throw left it.
\<close>

datatype call =
  Create string string "CreditLineStatus option"
| Get string
| List
| Suspend string string
| Close string string

datatype outcome =
  Line ref
| Found "ref option"
| Lines "ref list"
| Thrown error

fun exec :: "call \<Rightarrow> registry \<Rightarrow> outcome \<times> registry" where
  "exec (Create ts i st) g = (case createCreditLine ts i st g of (r, g') \<Rightarrow> (Line r, g'))"
| "exec (Get i) g = (Found (getCreditLine i g), g)"
| "exec List g = (Lines (listCreditLines g), g)"
| "exec (Suspend ts i) g =
     (case suspendCreditLine ts i g of (Inl e, g') \<Rightarrow> (Thrown e, g') | (Inr r, g') \<Rightarrow> (Line r, g'))"
| "exec (Close ts i) g =
     (case closeCreditLine ts i g of (Inl e, g') \<Rightarrow> (Thrown e, g') | (Inr r, g') \<Rightarrow> (Line r, g'))"

text \<open>The registry after a sequence of calls, started on \<open>g\<close>; \<open>run\<close> starts on the empty one.\<close>

fun exec_all :: "call list \<Rightarrow> registry \<Rightarrow> registry" where
  "exec_all [] g = g"
| "exec_all (c # cs) g = exec_all cs (snd (exec c g))"

definition run :: "call list \<Rightarrow> registry" where
  "run cs = exec_all cs empty_registry"

subsection \<open>Well-formed registries and audit trails\<close>

text \<open>
  What the operations keep true of the registry: a \<^verbatim>\<open>Map\<close> has each key once, no
  object is bound to two keys, and every object in the store has been allocated.
\<close>

definition wf :: "registry \<Rightarrow> bool" where
  "wf g \<longleftrightarrow> distinct (map fst (store g)) \<and> distinct (map snd (store g)) \<and>
     (\<forall>r \<in> set (map snd (store g)). r < next_ref g)"

text \<open>
  A record whose audit trail agrees with its timestamp fields.
\<close>

definition audited :: "CreditLine \<Rightarrow> bool" where
  "audited l \<longleftrightarrow> events l \<noteq> [] \<and> updatedAt l = timestamp (last (events l)) \<and>
     createdAt l = timestamp (hd (events l)) \<and> action (hd (events l)) = ActCreated"

subsection \<open>Sequences of creations\<close>

text \<open>
  A sequence of \<^verbatim>\<open>createCreditLine\<close> calls, each given as clock reading, id and optional
  status: the records the calls return, in the order of the calls, and the registry
  after the last one. \<open>created_ids\<close> are the ids passed, in the order of the calls.
\<close>

fun create_all ::
  "(string \<times> string \<times> CreditLineStatus option) list \<Rightarrow> registry \<Rightarrow> ref list \<times> registry" where
  "create_all [] g = ([], g)"
| "create_all ((ts, i, st) # cs) g =
     (case createCreditLine ts i st g of (r, g1) \<Rightarrow>
        (case create_all cs g1 of (rs, g2) \<Rightarrow> (r # rs, g2)))"

fun created_ids :: "(string \<times> string \<times> CreditLineStatus option) list \<Rightarrow> string list" where
  "created_ids [] = []"
| "created_ids ((ts, i, st) # cs) = i # created_ids cs"

text \<open>
  The order of \<^verbatim>\<open>listCreditLines()\<close> as the specification words it: the records
  created, in the order of their creation, leaving out those the store no longer holds.
  This definition follows the specification, not the source.
\<close>

definition created_still_present :: "ref list \<Rightarrow> registry \<Rightarrow> ref list" where
  "created_still_present rs g = filter (\<lambda>r. r \<in> set (listCreditLines g)) rs"

text \<open>
  The keys of a \<^verbatim>\<open>Map\<close> that was filled by setting \<open>ks\<close> in turn: each key once, at the
  place of its first occurrence.
\<close>

fun first_seen :: "string list \<Rightarrow> string list" where
  "first_seen [] = []"
| "first_seen (k # ks) = k # removeAll k (first_seen ks)"

section \<open>Auxiliary facts\<close>

subsection \<open>The map operations\<close>

lemma map_of_map_set: "map_of (map_set k v s) = (map_of s)(k \<mapsto> v)"
  by (induction s) (auto simp: fun_eq_iff)

lemma keys_map_set_present: "map_of s k = Some v0 \<Longrightarrow> map fst (map_set k v s) = map fst s"
  by (induction s) (auto split: if_splits)

lemma keys_map_set_absent: "map_of s k = None \<Longrightarrow> map fst (map_set k v s) = map fst s @ [k]"
  by (induction s) (auto split: if_splits)

lemma in_set_map_set: "p \<in> set (map_set k v s) \<Longrightarrow> p = (k, v) \<or> p \<in> set s"
  by (induction s) (auto split: if_splits)

lemma values_map_set_subset: "set (map snd (map_set k v s)) \<subseteq> insert v (set (map snd s))"
proof
  fix x
  assume "x \<in> set (map snd (map_set k v s))"
  then obtain p where p: "p \<in> set (map_set k v s)" and x: "x = snd p"
    by auto
  from in_set_map_set [OF p] x show "x \<in> insert v (set (map snd s))"
    by auto
qed

lemma distinct_keys_map_set: "distinct (map fst s) \<Longrightarrow> distinct (map fst (map_set k v s))"
  by (cases "map_of s k") (auto simp: keys_map_set_present keys_map_set_absent map_of_eq_None_iff)

lemma distinct_values_map_set:
  "distinct (map snd s) \<Longrightarrow> v \<notin> set (map snd s) \<Longrightarrow> distinct (map snd (map_set k v s))"
proof (induction s)
  case Nil
  then show ?case by simp
next
  case (Cons p s)
  obtain k' v' where p: "p = (k', v')" by (cases p)
  from Cons p values_map_set_subset [of k v s] show ?case by auto
qed

lemma replaced_value_gone:
  "distinct (map snd s) \<Longrightarrow> map_of s k = Some v0 \<Longrightarrow> v \<noteq> v0 \<Longrightarrow>
   v0 \<notin> set (map snd (map_set k v s))"
proof (induction s)
  case Nil
  then show ?case by simp
next
  case (Cons p s)
  obtain k' v' where p: "p = (k', v')" by (cases p)
  from Cons.prems p have d: "distinct (map snd s)" and v': "v' \<notin> set (map snd s)"
    by simp_all
  show ?case
  proof (cases "k' = k")
    case True
    with Cons.prems p v' show ?thesis by simp
  next
    case False
    with Cons.prems p have m: "map_of s k = Some v0" by simp
    then have "(k, v0) \<in> set s" by (rule map_of_SomeD)
    then have "v0 \<in> set (map snd s)" by force
    with v' have "v' \<noteq> v0" by blast
    with Cons.IH [OF d m Cons.prems(3)] False p show ?thesis by simp
  qed
qed

lemma no_alias:
  assumes "distinct (map snd s)" and "map_of s j = Some r" and "map_of s i = Some r"
  shows "i = j"
proof -
  from assms(2,3) have "(j, r) \<in> set s" "(i, r) \<in> set s"
    by (auto dest: map_of_SomeD)
  moreover from assms(1) have "inj_on snd (set s)"
    by (simp add: distinct_map)
  ultimately have "(j, r) = (i, r)"
    using inj_onD [of snd "set s" "(j, r)" "(i, r)"] by simp
  then show ?thesis by simp
qed

lemma values_by_keys:
  "distinct (map fst s) \<Longrightarrow> map Some (map snd s) = map (map_of s) (map fst s)"
proof (induction s)
  case Nil
  then show ?case by simp
next
  case (Cons p s)
  obtain k v where p: "p = (k, v)" by (cases p)
  from Cons.prems p have "\<forall>x \<in> set s. fst x \<noteq> k"
    by auto
  with Cons p show ?case
    by auto
qed

subsection \<open>Well-formedness is invariant\<close>

lemma wf_empty: "wf empty_registry"
  by (simp add: wf_def empty_registry_def)

lemma wf_create:
  assumes "wf g"
  shows "wf (snd (createCreditLine ts i st g))"
proof -
  let ?s = "map_set i (next_ref g) (store g)"
  from assms have fresh: "next_ref g \<notin> set (map snd (store g))"
    by (auto simp: wf_def)
  from assms have "distinct (map fst ?s)"
    by (simp add: wf_def distinct_keys_map_set)
  moreover from assms fresh have "distinct (map snd ?s)"
    by (simp add: wf_def distinct_values_map_set)
  moreover have "\<forall>r \<in> set (map snd ?s). r < Suc (next_ref g)"
  proof
    fix r
    assume "r \<in> set (map snd ?s)"
    with values_map_set_subset [of i "next_ref g" "store g"]
    have "r = next_ref g \<or> r \<in> set (map snd (store g))" by blast
    with assms show "r < Suc (next_ref g)"
      unfolding wf_def by (blast intro: less_SucI)
  qed
  ultimately show ?thesis
    by (simp add: wf_def createCreditLine_def Let_def)
qed

lemma wf_suspend: "wf g \<Longrightarrow> wf (snd (suspendCreditLine ts i g))"
  by (auto simp: wf_def suspendCreditLine_def Let_def split: option.split)

lemma wf_close: "wf g \<Longrightarrow> wf (snd (closeCreditLine ts i g))"
  by (auto simp: wf_def closeCreditLine_def Let_def split: option.split)

lemma snd_exec:
  "snd (exec (Create ts i st) g) = snd (createCreditLine ts i st g)"
  "snd (exec (Get i) g) = g"
  "snd (exec List g) = g"
  "snd (exec (Suspend ts i) g) = snd (suspendCreditLine ts i g)"
  "snd (exec (Close ts i) g) = snd (closeCreditLine ts i g)"
  by (auto split: prod.split sum.split)

lemma wf_exec: "wf g \<Longrightarrow> wf (snd (exec c g))"
  by (cases c) (simp_all add: snd_exec wf_create wf_suspend wf_close del: exec.simps)

lemma wf_exec_all: "wf g \<Longrightarrow> wf (exec_all cs g)"
  by (induction cs arbitrary: g) (simp_all add: wf_exec)

lemma wf_run: "wf (run cs)"
  by (simp add: run_def wf_exec_all wf_empty)

lemma store_allocated: "wf g \<Longrightarrow> r \<in> set (listCreditLines g) \<Longrightarrow> r < next_ref g"
  by (fastforce simp: wf_def listCreditLines_def)

lemma store_records:
  "wf g \<Longrightarrow> set (listCreditLines g) = {r. \<exists>i. getCreditLine i g = Some r}"
  using ran_distinct [of "store g"]
  by (auto simp: wf_def listCreditLines_def getCreditLine_def ran_def)

subsection \<open>Status changes of one call\<close>

lemma status_create:
  "r < next_ref g \<Longrightarrow> heap (snd (createCreditLine ts i st g)) r = heap g r"
  by (simp add: createCreditLine_def Let_def)

lemma status_suspend:
  "status (heap (snd (suspendCreditLine ts i g)) r) \<noteq> status (heap g r) \<Longrightarrow>
   getCreditLine i g = Some r \<and> status (heap g r) = Active \<and>
   status (heap (snd (suspendCreditLine ts i g)) r) = Suspended"
  by (auto simp: suspendCreditLine_def getCreditLine_def Let_def split: option.splits if_splits)

lemma status_close:
  "status (heap (snd (closeCreditLine ts i g)) r) \<noteq> status (heap g r) \<Longrightarrow>
   getCreditLine i g = Some r \<and> status (heap g r) \<noteq> Closed \<and>
   status (heap (snd (closeCreditLine ts i g)) r) = Closed"
  by (auto simp: closeCreditLine_def getCreditLine_def Let_def split: option.splits if_splits)

lemma status_exec:
  assumes "r < next_ref g" and "status (heap (snd (exec c g)) r) \<noteq> status (heap g r)"
  shows "(\<exists>ts i. c = Suspend ts i \<and> getCreditLine i g = Some r \<and> status (heap g r) = Active \<and>
            status (heap (snd (exec c g)) r) = Suspended) \<or>
         (\<exists>ts i. c = Close ts i \<and> getCreditLine i g = Some r \<and> status (heap g r) \<noteq> Closed \<and>
            status (heap (snd (exec c g)) r) = Closed)"
proof (cases c)
  case (Create ts i st)
  with assms status_create [of r g ts i st] show ?thesis by (simp add: snd_exec del: exec.simps)
next
  case (Suspend ts i)
  with assms status_suspend [of ts i g r] show ?thesis by (simp add: snd_exec del: exec.simps)
next
  case (Close ts i)
  with assms status_close [of ts i g r] show ?thesis by (simp add: snd_exec del: exec.simps)
qed (use assms in \<open>simp_all add: snd_exec del: exec.simps\<close>)

subsection \<open>Audit trails are invariant\<close>

lemma audited_create:
  "\<forall>r < next_ref g. audited (heap g r) \<Longrightarrow>
   \<forall>r < next_ref (snd (createCreditLine ts i st g)). audited (heap (snd (createCreditLine ts i st g)) r)"
  by (simp add: createCreditLine_def Let_def audited_def less_Suc_eq)

lemma audited_suspend:
  "\<forall>r < next_ref g. audited (heap g r) \<Longrightarrow>
   \<forall>r < next_ref (snd (suspendCreditLine ts i g)). audited (heap (snd (suspendCreditLine ts i g)) r)"
  by (auto simp: suspendCreditLine_def Let_def audited_def split: option.split)

lemma audited_close:
  "\<forall>r < next_ref g. audited (heap g r) \<Longrightarrow>
   \<forall>r < next_ref (snd (closeCreditLine ts i g)). audited (heap (snd (closeCreditLine ts i g)) r)"
  by (auto simp: closeCreditLine_def Let_def audited_def split: option.split)

lemma audited_exec:
  "\<forall>r < next_ref g. audited (heap g r) \<Longrightarrow>
   \<forall>r < next_ref (snd (exec c g)). audited (heap (snd (exec c g)) r)"
  by (cases c) (simp_all add: snd_exec audited_create audited_suspend audited_close del: exec.simps)

lemma audited_exec_all:
  "\<forall>r < next_ref g. audited (heap g r) \<Longrightarrow>
   \<forall>r < next_ref (exec_all cs g). audited (heap (exec_all cs g) r)"
proof (induction cs arbitrary: g)
  case Nil
  then show ?case by simp
next
  case (Cons c cs)
  from Cons.IH [OF audited_exec [OF Cons.prems]] show ?case by simp
qed

lemma audited_run: "r < next_ref (run cs) \<Longrightarrow> audited (heap (run cs) r)"
  using audited_exec_all [of empty_registry cs] by (simp add: run_def empty_registry_def)

subsection \<open>What a successful transition leaves alone\<close>

lemma appended_differs:
  "l\<lparr>status := s, updatedAt := t, events := events l @ [e]\<rparr> \<noteq> (l::CreditLine)"
proof
  assume "l\<lparr>status := s, updatedAt := t, events := events l @ [e]\<rparr> = l"
  then have "events (l\<lparr>status := s, updatedAt := t, events := events l @ [e]\<rparr>) = events l"
    by (rule arg_cong)
  then show False by simp
qed

lemma suspend_frame:
  assumes "suspendCreditLine ts i g = (Inr r, g')"
  shows "getCreditLine i g = Some r \<and> store g' = store g \<and> next_ref g' = next_ref g \<and>
    (\<forall>r'. r' \<noteq> r \<longrightarrow> heap g' r' = heap g r') \<and>
    heap g' r \<noteq> heap g r \<and>
    line_id (heap g' r) = line_id (heap g r) \<and> createdAt (heap g' r) = createdAt (heap g r) \<and>
    (\<exists>e. events (heap g' r) = events (heap g r) @ [e])"
  using assms
  by (auto simp: suspendCreditLine_def getCreditLine_def Let_def appended_differs
      split: option.splits if_splits)

lemma close_frame:
  assumes "closeCreditLine ts i g = (Inr r, g')"
  shows "getCreditLine i g = Some r \<and> store g' = store g \<and> next_ref g' = next_ref g \<and>
    (\<forall>r'. r' \<noteq> r \<longrightarrow> heap g' r' = heap g r') \<and>
    heap g' r \<noteq> heap g r \<and>
    line_id (heap g' r) = line_id (heap g r) \<and> createdAt (heap g' r) = createdAt (heap g r) \<and>
    (\<exists>e. events (heap g' r) = events (heap g r) @ [e])"
  using assms
  by (auto simp: closeCreditLine_def getCreditLine_def Let_def appended_differs
      split: option.splits if_splits)

lemma exec_frame:
  assumes "c = Suspend ts i \<or> c = Close ts i" and "exec c g = (Line r, g')"
  shows "getCreditLine i g = Some r \<and> store g' = store g \<and> next_ref g' = next_ref g \<and>
    (\<forall>r'. r' \<noteq> r \<longrightarrow> heap g' r' = heap g r') \<and>
    heap g' r \<noteq> heap g r \<and>
    line_id (heap g' r) = line_id (heap g r) \<and> createdAt (heap g' r) = createdAt (heap g r) \<and>
    (\<exists>e. events (heap g' r) = events (heap g r) @ [e])"
proof -
  from assms have "suspendCreditLine ts i g = (Inr r, g') \<or> closeCreditLine ts i g = (Inr r, g')"
    by (auto split: prod.splits sum.splits)
  then show ?thesis
    using suspend_frame [of ts i g r g'] close_frame [of ts i g r g'] by blast
qed

subsection \<open>The store after a sequence of creations\<close>

lemma create_fst: "fst (createCreditLine ts i st g) = next_ref g"
  by (simp add: createCreditLine_def Let_def)

lemma create_store: "store (snd (createCreditLine ts i st g)) = map_set i (next_ref g) (store g)"
  by (simp add: createCreditLine_def Let_def)

lemma create_all_Cons:
  "fst (create_all ((ts, i, st) # cs) g) =
     next_ref g # fst (create_all cs (snd (createCreditLine ts i st g)))"
  "snd (create_all ((ts, i, st) # cs) g) = snd (create_all cs (snd (createCreditLine ts i st g)))"
  using create_fst [of ts i st g] by (auto split: prod.splits)

lemma length_create_all: "length (fst (create_all cs g)) = length cs"
proof (induction cs arbitrary: g)
  case Nil
  then show ?case by simp
next
  case (Cons c cs)
  obtain ts i st where c: "c = (ts, i, st)" by (cases c)
  show ?case
    unfolding c create_all_Cons by (simp add: Cons.IH)
qed

lemma create_all_lookup:
  "map_of (store (snd (create_all cs g))) =
   map_of (rev (zip (created_ids cs) (fst (create_all cs g))) @ store g)"
proof (induction cs arbitrary: g)
  case Nil
  then show ?case by simp
next
  case (Cons c cs)
  obtain ts i st where c: "c = (ts, i, st)" by (cases c)
  show ?case
    unfolding c create_all_Cons
    by (simp add: Cons.IH create_store map_of_map_set del: create_all.simps)
qed

lemma filter_removeAll_absent: "\<not> P k \<Longrightarrow> filter P (removeAll k xs) = filter P xs"
  by (induction xs) auto

lemma filter_snoc_removeAll:
  "filter (\<lambda>k. k \<notin> set (ks @ [i])) xs = filter (\<lambda>k. k \<notin> set ks) (removeAll i xs)"
  by (induction xs) auto

lemma create_all_keys:
  "map fst (store (snd (create_all cs g))) =
   map fst (store g) @
   filter (\<lambda>k. k \<notin> set (map fst (store g))) (first_seen (created_ids cs))"
proof (induction cs arbitrary: g)
  case Nil
  then show ?case by simp
next
  case (Cons c cs)
  obtain ts i st where c: "c = (ts, i, st)" by (cases c)
  let ?g1 = "snd (createCreditLine ts i st g)"
  let ?ks = "first_seen (created_ids cs)"
  have IH: "map fst (store (snd (create_all cs ?g1))) =
    map fst (store ?g1) @ filter (\<lambda>k. k \<notin> set (map fst (store ?g1))) ?ks"
    by (rule Cons.IH)
  show ?case
  proof (cases "map_of (store g) i")
    case None
    then have absent: "i \<notin> set (map fst (store g))"
      by (simp add: map_of_eq_None_iff)
    from None have keys: "map fst (store ?g1) = map fst (store g) @ [i]"
      by (simp add: create_store keys_map_set_absent)
    have "filter (\<lambda>k. k \<notin> set (map fst (store g) @ [i])) ?ks =
          filter (\<lambda>k. k \<notin> set (map fst (store g))) (removeAll i ?ks)"
      by (rule filter_snoc_removeAll)
    with IH keys absent show ?thesis
      unfolding c create_all_Cons by simp
  next
    case (Some r0)
    then have present: "i \<in> set (map fst (store g))"
      by (force dest: map_of_SomeD)
    from Some have keys: "map fst (store ?g1) = map fst (store g)"
      by (simp add: create_store keys_map_set_present)
    from present
    have "filter (\<lambda>k. k \<notin> set (map fst (store g))) (removeAll i ?ks) =
          filter (\<lambda>k. k \<notin> set (map fst (store g))) ?ks"
      by (intro filter_removeAll_absent) simp
    with IH keys present show ?thesis
      unfolding c create_all_Cons by simp
  qed
qed

lemma create_all_distinct:
  "distinct (created_ids cs) \<Longrightarrow>
   set (created_ids cs) \<inter> set (map fst (store g)) = {} \<Longrightarrow>
   store (snd (create_all cs g)) = store g @ zip (created_ids cs) (fst (create_all cs g))"
proof (induction cs arbitrary: g)
  case Nil
  then show ?case by simp
next
  case (Cons c cs)
  obtain ts i st where c: "c = (ts, i, st)" by (cases c)
  let ?g1 = "snd (createCreditLine ts i st g)"
  from Cons.prems c have "i \<notin> set (map fst (store g))"
    by auto
  then have absent: "map_of (store g) i = None"
    by (simp add: map_of_eq_None_iff)
  have set_absent: "map_set k v s = s @ [(k, v)]" if "map_of s k = None" for k v s
    using that by (induction s) (auto split: if_splits)
  from absent have store1: "store ?g1 = store g @ [(i, next_ref g)]"
    by (simp add: create_store set_absent)
  from Cons.prems c store1
  have "store (snd (create_all cs ?g1)) =
        store ?g1 @ zip (created_ids cs) (fst (create_all cs ?g1))"
    by (intro Cons.IH) auto
  with store1 show ?case
    unfolding c create_all_Cons by simp
qed

lemma create_all_reachable:
  "snd (create_all cs g) = exec_all (map (\<lambda>(ts, i, st). Create ts i st) cs) g"
proof (induction cs arbitrary: g)
  case Nil
  then show ?case by simp
next
  case (Cons c cs)
  obtain ts i st where c: "c = (ts, i, st)" by (cases c)
  show ?case
    unfolding c create_all_Cons by (simp add: Cons.IH snd_exec del: exec.simps create_all.simps)
qed

section \<open>Properties\<close>

subsection \<open>suspend\<close>

text \<open>
  C1. \<^verbatim>\<open>suspendCreditLine(id)\<close> throws \<^verbatim>\<open>CreditLineNotFoundError(id)\<close> when the store has no
  record under \<open>id\<close>; throws \<^verbatim>\<open>InvalidTransitionError(status, "suspend")\<close> when the record's
  status is not active; and otherwise returns that record, whose status is now suspended,
  whose \<open>updatedAt\<close> is the clock reading of the call, and whose events are the former
  events followed by exactly one event with action suspended.
\<close>

theorem suspend_behaviour:
  "(getCreditLine i g = None \<longrightarrow>
      fst (suspendCreditLine ts i g) = Inl (CreditLineNotFoundError i)) \<and>
   (\<forall>r. getCreditLine i g = Some r \<and> status (heap g r) \<noteq> Active \<longrightarrow>
      fst (suspendCreditLine ts i g) = Inl (InvalidTransitionError (status (heap g r)) ''suspend'')) \<and>
   (\<forall>r. getCreditLine i g = Some r \<and> status (heap g r) = Active \<longrightarrow>
      (let g' = snd (suspendCreditLine ts i g) in
         fst (suspendCreditLine ts i g) = Inr r \<and>
         getCreditLine i g' = Some r \<and>
         status (heap g' r) = Suspended \<and>
         updatedAt (heap g' r) = ts \<and>
         events (heap g' r) =
           events (heap g r) @ [\<lparr>action = ActSuspended, timestamp = ts, actor = None\<rparr>] \<and>
         length (events (heap g' r)) = Suc (length (events (heap g r)))))"
  by (simp add: suspendCreditLine_def getCreditLine_def Let_def)

theorem suspend_behaviour_witness:
  "getCreditLine ''x'' empty_registry = None \<and>
   fst (suspendCreditLine ''t2'' ''x'' empty_registry) = Inl (CreditLineNotFoundError ''x'') \<and>
   getCreditLine ''x'' (run [Create ''t1'' ''x'' (Some Closed)]) = Some 0 \<and>
   fst (suspendCreditLine ''t2'' ''x'' (run [Create ''t1'' ''x'' (Some Closed)])) =
     Inl (InvalidTransitionError Closed ''suspend'') \<and>
   getCreditLine ''x'' (run [Create ''t1'' ''x'' None]) = Some 0 \<and>
   fst (suspendCreditLine ''t2'' ''x'' (run [Create ''t1'' ''x'' None])) = Inr 0 \<and>
   map action (events (heap (snd (suspendCreditLine ''t2'' ''x'' (run [Create ''t1'' ''x'' None]))) 0)) =
     [ActCreated, ActSuspended]"
  using suspend_behaviour [of "''x''" empty_registry "''t2''"]
        suspend_behaviour [of "''x''" "run [Create ''t1'' ''x'' (Some Closed)]" "''t2''"]
        suspend_behaviour [of "''x''" "run [Create ''t1'' ''x'' None]" "''t2''"]
  by (simp add: run_def empty_registry_def createCreditLine_def getCreditLine_def Let_def)

subsection \<open>close\<close>

text \<open>
  C2. \<^verbatim>\<open>closeCreditLine(id)\<close> throws \<^verbatim>\<open>CreditLineNotFoundError(id)\<close> when the store has no
  record under \<open>id\<close>; throws \<^verbatim>\<open>InvalidTransitionError("closed", "close")\<close> when the record's
  status is closed; and otherwise, the status being active or suspended, returns that
  record, whose status is now closed, whose \<open>updatedAt\<close> is the clock reading of the call,
  and whose events are the former events followed by exactly one event with action closed.
\<close>

theorem close_behaviour:
  "(getCreditLine i g = None \<longrightarrow>
      fst (closeCreditLine ts i g) = Inl (CreditLineNotFoundError i)) \<and>
   (\<forall>r. getCreditLine i g = Some r \<and> status (heap g r) = Closed \<longrightarrow>
      fst (closeCreditLine ts i g) = Inl (InvalidTransitionError Closed ''close'')) \<and>
   (\<forall>r. getCreditLine i g = Some r \<and> status (heap g r) \<in> {Active, Suspended} \<longrightarrow>
      (let g' = snd (closeCreditLine ts i g) in
         fst (closeCreditLine ts i g) = Inr r \<and>
         getCreditLine i g' = Some r \<and>
         status (heap g' r) = Closed \<and>
         updatedAt (heap g' r) = ts \<and>
         events (heap g' r) =
           events (heap g r) @ [\<lparr>action = ActClosed, timestamp = ts, actor = None\<rparr>] \<and>
         length (events (heap g' r)) = Suc (length (events (heap g r)))))"
  by (auto simp add: closeCreditLine_def getCreditLine_def Let_def)

theorem close_behaviour_witness:
  "getCreditLine ''x'' empty_registry = None \<and>
   fst (closeCreditLine ''t2'' ''x'' empty_registry) = Inl (CreditLineNotFoundError ''x'') \<and>
   getCreditLine ''x'' (run [Create ''t1'' ''x'' (Some Closed)]) = Some 0 \<and>
   fst (closeCreditLine ''t2'' ''x'' (run [Create ''t1'' ''x'' (Some Closed)])) =
     Inl (InvalidTransitionError Closed ''close'') \<and>
   getCreditLine ''x'' (run [Create ''t1'' ''x'' (Some Suspended)]) = Some 0 \<and>
   fst (closeCreditLine ''t2'' ''x'' (run [Create ''t1'' ''x'' (Some Suspended)])) = Inr 0 \<and>
   map action
     (events (heap (snd (closeCreditLine ''t2'' ''x'' (run [Create ''t1'' ''x'' (Some Suspended)]))) 0)) =
     [ActCreated, ActClosed]"
  using close_behaviour [of "''x''" empty_registry "''t2''"]
        close_behaviour [of "''x''" "run [Create ''t1'' ''x'' (Some Closed)]" "''t2''"]
        close_behaviour [of "''x''" "run [Create ''t1'' ''x'' (Some Suspended)]" "''t2''"]
  by (simp add: run_def empty_registry_def createCreditLine_def getCreditLine_def Let_def)

subsection \<open>Errors leave the registry as it was\<close>

text \<open>
  C3. When \<^verbatim>\<open>suspendCreditLine(id)\<close> or \<^verbatim>\<open>closeCreditLine(id)\<close> throws, whichever of the
  two errors it is, the whole registry is as before the call: the same keys in the same
  order, bound to the same records, and every record with the same fields, so the
  record under \<open>id\<close> (if there is one) keeps its status, \<open>updatedAt\<close> and events.
\<close>

theorem error_atomicity:
  "(\<forall>e. fst (suspendCreditLine ts i g) = Inl e \<longrightarrow> snd (suspendCreditLine ts i g) = g) \<and>
   (\<forall>e. fst (closeCreditLine ts i g) = Inl e \<longrightarrow> snd (closeCreditLine ts i g) = g)"
  by (simp add: suspendCreditLine_def closeCreditLine_def Let_def split: option.split)

theorem error_atomicity_witness:
  "fst (suspendCreditLine ''t2'' ''x'' empty_registry) = Inl (CreditLineNotFoundError ''x'') \<and>
   snd (suspendCreditLine ''t2'' ''x'' empty_registry) = empty_registry \<and>
   fst (closeCreditLine ''t2'' ''x'' (run [Create ''t1'' ''x'' (Some Closed)])) =
     Inl (InvalidTransitionError Closed ''close'') \<and>
   snd (closeCreditLine ''t2'' ''x'' (run [Create ''t1'' ''x'' (Some Closed)])) =
     run [Create ''t1'' ''x'' (Some Closed)]"
proof -
  have 1: "fst (suspendCreditLine ''t2'' ''x'' empty_registry) = Inl (CreditLineNotFoundError ''x'')"
    by (simp add: suspendCreditLine_def empty_registry_def)
  have 2: "fst (closeCreditLine ''t2'' ''x'' (run [Create ''t1'' ''x'' (Some Closed)])) =
     Inl (InvalidTransitionError Closed ''close'')"
    by (simp add: closeCreditLine_def run_def empty_registry_def createCreditLine_def Let_def)
  from 1 2 error_atomicity [of "''t2''" "''x''" empty_registry]
    error_atomicity [of "''t2''" "''x''" "run [Create ''t1'' ''x'' (Some Closed)]"]
  show ?thesis by blast
qed

subsection \<open>create\<close>

text \<open>
  C5. \<^verbatim>\<open>createCreditLine(id)\<close> returns a record that is then the one stored under \<open>id\<close>.
  Its events are exactly one entry, with action created. Its status is active when no
  status is passed, and the status passed otherwise.
\<close>

theorem create_behaviour:
  "createCreditLine ts i st g = (r, g') \<Longrightarrow>
     getCreditLine i g' = Some r \<and>
     line_id (heap g' r) = i \<and>
     events (heap g' r) = [\<lparr>action = ActCreated, timestamp = ts, actor = None\<rparr>] \<and>
     length (events (heap g' r)) = 1 \<and>
     action (events (heap g' r) ! 0) = ActCreated \<and>
     (st = None \<longrightarrow> status (heap g' r) = Active) \<and>
     (\<forall>s. st = Some s \<longrightarrow> status (heap g' r) = s)"
  by (auto simp: createCreditLine_def getCreditLine_def Let_def map_of_map_set)

theorem create_behaviour_witness:
  "createCreditLine ''t1'' ''x'' None empty_registry = (0, run [Create ''t1'' ''x'' None]) \<and>
   getCreditLine ''x'' (run [Create ''t1'' ''x'' None]) = Some 0 \<and>
   status (heap (run [Create ''t1'' ''x'' None]) 0) = Active \<and>
   map action (events (heap (run [Create ''t1'' ''x'' None]) 0)) = [ActCreated] \<and>
   createCreditLine ''t2'' ''y'' (Some Suspended) (run [Create ''t1'' ''x'' None]) =
     (1, run [Create ''t1'' ''x'' None, Create ''t2'' ''y'' (Some Suspended)]) \<and>
   getCreditLine ''y'' (run [Create ''t1'' ''x'' None, Create ''t2'' ''y'' (Some Suspended)]) = Some 1 \<and>
   status (heap (run [Create ''t1'' ''x'' None, Create ''t2'' ''y'' (Some Suspended)]) 1) = Suspended"
proof -
  have 1: "createCreditLine ''t1'' ''x'' None empty_registry = (0, run [Create ''t1'' ''x'' None])"
    by (simp add: run_def createCreditLine_def empty_registry_def Let_def)
  have 2: "createCreditLine ''t2'' ''y'' (Some Suspended) (run [Create ''t1'' ''x'' None]) =
     (1, run [Create ''t1'' ''x'' None, Create ''t2'' ''y'' (Some Suspended)])"
    by (simp add: run_def createCreditLine_def empty_registry_def Let_def)
  from 1 2 create_behaviour [OF 1] create_behaviour [OF 2] show ?thesis
    by simp
qed

text \<open>
  C8. When \<open>id\<close> is already bound, in a registry reached from the empty one,
  \<^verbatim>\<open>createCreditLine(id)\<close> binds it to a fresh record: one that did not exist before, with
  the single event created and the status of this call. The record bound before is no
  longer in the store, so its status and events are out of reach of \<^verbatim>\<open>getCreditLine\<close>
  and \<^verbatim>\<open>listCreditLines\<close>. The keys and their order stay, and every other id keeps
  its record.
\<close>

theorem create_replaces:
  assumes "getCreditLine i (run cs) = Some r0"
    and "createCreditLine ts i st (run cs) = (r, g')"
  shows "getCreditLine i g' = Some r \<and>
    r \<noteq> r0 \<and> r \<notin> set (listCreditLines (run cs)) \<and> \<not> r < next_ref (run cs) \<and>
    events (heap g' r) = [\<lparr>action = ActCreated, timestamp = ts, actor = None\<rparr>] \<and>
    length (events (heap g' r)) = 1 \<and>
    status (heap g' r) = (case st of None \<Rightarrow> Active | Some s \<Rightarrow> s) \<and>
    r0 \<notin> set (listCreditLines g') \<and>
    map fst (store g') = map fst (store (run cs)) \<and>
    (\<forall>j. j \<noteq> i \<longrightarrow> getCreditLine j g' = getCreditLine j (run cs))"
proof -
  let ?g = "run cs"
  from assms(2) have r: "r = next_ref ?g"
    and g': "g' = ?g\<lparr>heap := (heap ?g)(r := \<lparr>line_id = i,
        status = (case st of None \<Rightarrow> Active | Some s \<Rightarrow> s), createdAt = ts, updatedAt = ts,
        events = [\<lparr>action = ActCreated, timestamp = ts, actor = None\<rparr>]\<rparr>),
      next_ref := Suc r, store := map_set i r (store ?g)\<rparr>"
    by (auto simp: createCreditLine_def Let_def)
  have wf: "wf ?g" by (rule wf_run)
  from assms(1) have "r0 \<in> set (listCreditLines ?g)"
    by (force simp: getCreditLine_def listCreditLines_def dest: map_of_SomeD)
  with wf have "r0 < next_ref ?g" by (rule store_allocated)
  with r have ne: "r \<noteq> r0" by simp
  from wf r have fresh: "r \<notin> set (listCreditLines ?g)"
    using store_allocated [of ?g r] by auto
  from wf have "distinct (map snd (store ?g))" by (simp add: wf_def)
  with assms(1) ne have gone: "r0 \<notin> set (listCreditLines g')"
    using replaced_value_gone [of "store ?g" i r0 r] by (simp add: g' getCreditLine_def listCreditLines_def)
  from assms(1) have keys: "map fst (store g') = map fst (store ?g)"
    by (simp add: g' getCreditLine_def keys_map_set_present)
  from r ne fresh gone keys show ?thesis
    by (simp add: g' getCreditLine_def map_of_map_set)
qed

theorem create_replaces_witness:
  "getCreditLine ''x'' (run [Create ''t1'' ''x'' None, Suspend ''t2'' ''x'']) = Some 0 \<and>
   status (heap (run [Create ''t1'' ''x'' None, Suspend ''t2'' ''x'']) 0) = Suspended \<and>
   createCreditLine ''t3'' ''x'' None (run [Create ''t1'' ''x'' None, Suspend ''t2'' ''x'']) =
     (1, run [Create ''t1'' ''x'' None, Suspend ''t2'' ''x'', Create ''t3'' ''x'' None]) \<and>
   getCreditLine ''x'' (run [Create ''t1'' ''x'' None, Suspend ''t2'' ''x'', Create ''t3'' ''x'' None]) = Some 1 \<and>
   status (heap (run [Create ''t1'' ''x'' None, Suspend ''t2'' ''x'', Create ''t3'' ''x'' None]) 1) = Active \<and>
   listCreditLines (run [Create ''t1'' ''x'' None, Suspend ''t2'' ''x'', Create ''t3'' ''x'' None]) = [1]"
proof -
  have 1: "getCreditLine ''x'' (run [Create ''t1'' ''x'' None, Suspend ''t2'' ''x'']) = Some 0"
    by (simp add: run_def empty_registry_def createCreditLine_def suspendCreditLine_def
        getCreditLine_def Let_def)
  have 2: "createCreditLine ''t3'' ''x'' None (run [Create ''t1'' ''x'' None, Suspend ''t2'' ''x'']) =
     (1, run [Create ''t1'' ''x'' None, Suspend ''t2'' ''x'', Create ''t3'' ''x'' None])"
    by (simp add: run_def empty_registry_def createCreditLine_def suspendCreditLine_def Let_def)
  have 3: "status (heap (run [Create ''t1'' ''x'' None, Suspend ''t2'' ''x'']) 0) = Suspended"
    by (simp add: run_def empty_registry_def createCreditLine_def suspendCreditLine_def Let_def)
  have 4: "listCreditLines (run [Create ''t1'' ''x'' None, Suspend ''t2'' ''x'', Create ''t3'' ''x'' None]) = [1]"
    by (simp add: run_def empty_registry_def createCreditLine_def suspendCreditLine_def
        listCreditLines_def Let_def)
  from create_replaces [OF 1 2] 1 2 3 4 show ?thesis
    by simp
qed

subsection \<open>The status state machine\<close>

text \<open>
  C4. In a registry reached from the empty one by any calls, every record of the store
  is an allocated object, and one further call, whatever it is, does to the status of an
  allocated record \<open>r\<close> one of four things: nothing, active to suspended, active to
  closed, suspended to closed. So a suspended record never becomes active and a closed
  record stays closed. A status changes only by a \<^verbatim>\<open>suspendCreditLine\<close> or
  \<^verbatim>\<open>closeCreditLine\<close> on the id bound to that record; \<^verbatim>\<open>createCreditLine\<close> allocates a
  new object and assigns to no existing one.
\<close>

theorem status_transitions:
  "(\<forall>r \<in> set (listCreditLines (run cs)). r < next_ref (run cs)) \<and>
   (\<forall>r. r < next_ref (run cs) \<longrightarrow>
      (let before = status (heap (run cs) r);
           after = status (heap (snd (exec c (run cs))) r)
       in (before = Suspended \<longrightarrow> after \<noteq> Active) \<and>
          (before = Closed \<longrightarrow> after = Closed) \<and>
          (after \<noteq> before \<longrightarrow>
             (before, after) \<in> {(Active, Suspended), (Active, Closed), (Suspended, Closed)} \<and>
             (\<exists>ts i. (c = Suspend ts i \<or> c = Close ts i) \<and> getCreditLine i (run cs) = Some r))))"
proof (intro conjI allI impI ballI)
  fix r
  assume "r \<in> set (listCreditLines (run cs))"
  then show "r < next_ref (run cs)"
    by (rule store_allocated [OF wf_run])
next
  fix r
  assume r: "r < next_ref (run cs)"
  let ?b = "status (heap (run cs) r)"
  let ?a = "status (heap (snd (exec c (run cs))) r)"
  have "?a = ?b \<or> (?b = Active \<and> ?a = Suspended) \<or> (?b \<noteq> Closed \<and> ?a = Closed)"
    using status_exec [OF r, of c] by blast
  moreover have "?a \<noteq> ?b \<Longrightarrow> \<exists>ts i. (c = Suspend ts i \<or> c = Close ts i) \<and> getCreditLine i (run cs) = Some r"
    using status_exec [OF r, of c] by blast
  ultimately
  show "let before = ?b; after = ?a
       in (before = Suspended \<longrightarrow> after \<noteq> Active) \<and>
          (before = Closed \<longrightarrow> after = Closed) \<and>
          (after \<noteq> before \<longrightarrow>
             (before, after) \<in> {(Active, Suspended), (Active, Closed), (Suspended, Closed)} \<and>
             (\<exists>ts i. (c = Suspend ts i \<or> c = Close ts i) \<and> getCreditLine i (run cs) = Some r))"
    unfolding Let_def by (cases ?b; cases ?a) auto
qed

theorem status_transitions_witness:
  "0 \<in> set (listCreditLines (run [Create ''t1'' ''x'' None, Suspend ''t2'' ''x''])) \<and>
   0 < next_ref (run [Create ''t1'' ''x'' None, Suspend ''t2'' ''x'']) \<and>
   status (heap (run [Create ''t1'' ''x'' None, Suspend ''t2'' ''x'']) 0) = Suspended \<and>
   status (heap (snd (exec (Close ''t3'' ''x'') (run [Create ''t1'' ''x'' None, Suspend ''t2'' ''x'']))) 0) = Closed \<and>
   getCreditLine ''x'' (run [Create ''t1'' ''x'' None, Suspend ''t2'' ''x'']) = Some 0"
  using status_transitions [of "[Create ''t1'' ''x'' None, Suspend ''t2'' ''x'']" "Close ''t3'' ''x''"]
  by (simp add: run_def empty_registry_def createCreditLine_def suspendCreditLine_def
      closeCreditLine_def listCreditLines_def getCreditLine_def Let_def)

text \<open>
  Two \<^verbatim>\<open>suspendCreditLine\<close> calls on a record just created active, run one after the
  other with any clock readings: the first returns the record, the second throws
  \<^verbatim>\<open>InvalidTransitionError("suspended", "suspend")\<close>, and the record has two events.
\<close>

lemma suspend_twice_in_a_row:
  "fst (exec (Suspend ts1 i) (snd (createCreditLine ts0 i None g))) = Line (next_ref g) \<and>
   fst (exec (Suspend ts2 i) (snd (exec (Suspend ts1 i) (snd (createCreditLine ts0 i None g))))) =
     Thrown (InvalidTransitionError Suspended ''suspend'') \<and>
   length (events (heap
     (snd (exec (Suspend ts2 i) (snd (exec (Suspend ts1 i) (snd (createCreditLine ts0 i None g))))))
     (next_ref g))) = 2"
  by (simp add: createCreditLine_def suspendCreditLine_def Let_def map_of_map_set)

subsection \<open>Timestamps and the audit trail\<close>

text \<open>
  C10. In a registry reached from the empty one by any calls, every allocated record,
  and so every record of the store, has a non-empty event list whose first entry is the
  created event, \<open>createdAt\<close> is the timestamp of that first entry and \<open>updatedAt\<close> the
  timestamp of the last entry. Right after \<^verbatim>\<open>createCreditLine\<close>, \<open>createdAt\<close>,
  \<open>updatedAt\<close> and the timestamp of \<^verbatim>\<open>events[0]\<close> are the one clock reading of the call.
\<close>

theorem audit_trail_timestamps:
  "(\<forall>r. r < next_ref (run cs) \<or> r \<in> set (listCreditLines (run cs)) \<longrightarrow>
      (let l = heap (run cs) r
       in events l \<noteq> [] \<and>
          updatedAt l = timestamp (last (events l)) \<and>
          createdAt l = timestamp (hd (events l)) \<and>
          action (hd (events l)) = ActCreated)) \<and>
   (let l = heap (snd (createCreditLine ts i st (run cs))) (fst (createCreditLine ts i st (run cs)))
    in createdAt l = ts \<and> updatedAt l = ts \<and> timestamp (events l ! 0) = ts)"
proof (intro conjI allI impI)
  fix r
  assume "r < next_ref (run cs) \<or> r \<in> set (listCreditLines (run cs))"
  then have "r < next_ref (run cs)"
    using store_allocated [OF wf_run] by blast
  then have "audited (heap (run cs) r)"
    by (rule audited_run)
  then show "let l = heap (run cs) r
       in events l \<noteq> [] \<and>
          updatedAt l = timestamp (last (events l)) \<and>
          createdAt l = timestamp (hd (events l)) \<and>
          action (hd (events l)) = ActCreated"
    by (simp add: audited_def)
next
  show "let l = heap (snd (createCreditLine ts i st (run cs))) (fst (createCreditLine ts i st (run cs)))
    in createdAt l = ts \<and> updatedAt l = ts \<and> timestamp (events l ! 0) = ts"
    by (simp add: createCreditLine_def Let_def)
qed

theorem audit_trail_timestamps_witness:
  "0 < next_ref (run [Create ''t1'' ''x'' None, Suspend ''t2'' ''x'', Close ''t3'' ''x'']) \<and>
   0 \<in> set (listCreditLines (run [Create ''t1'' ''x'' None, Suspend ''t2'' ''x'', Close ''t3'' ''x''])) \<and>
   map timestamp (events (heap (run [Create ''t1'' ''x'' None, Suspend ''t2'' ''x'', Close ''t3'' ''x'']) 0)) =
     [''t1'', ''t2'', ''t3''] \<and>
   updatedAt (heap (run [Create ''t1'' ''x'' None, Suspend ''t2'' ''x'', Close ''t3'' ''x'']) 0) = ''t3'' \<and>
   createdAt (heap (run [Create ''t1'' ''x'' None, Suspend ''t2'' ''x'', Close ''t3'' ''x'']) 0) = ''t1''"
  using audit_trail_timestamps [of "[Create ''t1'' ''x'' None, Suspend ''t2'' ''x'', Close ''t3'' ''x'']"]
  by (simp add: run_def empty_registry_def createCreditLine_def suspendCreditLine_def
      closeCreditLine_def listCreditLines_def Let_def)

subsection \<open>The frame of a successful transition\<close>

text \<open>
  C6. A \<^verbatim>\<open>suspendCreditLine(id)\<close> or \<^verbatim>\<open>closeCreditLine(id)\<close> that returns, in a registry
  reached from the empty one, returns the record \<open>r\<close> bound to \<open>id\<close> and changes that
  record only: the store binds the same ids to the same records, every other object has
  the fields it had, in particular the record of every other id. The record \<open>r\<close> itself
  is changed; it keeps its \<open>id\<close> and \<open>createdAt\<close>, and its events are the former events,
  in their order, with exactly one more at the end.
\<close>

theorem transition_frame:
  assumes "c = Suspend ts i \<or> c = Close ts i" and "exec c (run cs) = (Line r, g')"
  shows "getCreditLine i (run cs) = Some r \<and>
    store g' = store (run cs) \<and> next_ref g' = next_ref (run cs) \<and>
    (\<forall>r'. r' \<noteq> r \<longrightarrow> heap g' r' = heap (run cs) r') \<and>
    (\<forall>j r'. j \<noteq> i \<and> getCreditLine j (run cs) = Some r' \<longrightarrow>
       getCreditLine j g' = Some r' \<and> heap g' r' = heap (run cs) r') \<and>
    heap g' r \<noteq> heap (run cs) r \<and>
    line_id (heap g' r) = line_id (heap (run cs) r) \<and>
    createdAt (heap g' r) = createdAt (heap (run cs) r) \<and>
    (\<exists>e. events (heap g' r) = events (heap (run cs) r) @ [e]) \<and>
    length (events (heap g' r)) = Suc (length (events (heap (run cs) r))) \<and>
    take (length (events (heap (run cs) r))) (events (heap g' r)) = events (heap (run cs) r)"
proof -
  note f = exec_frame [OF assms]
  have others: "getCreditLine j g' = Some r' \<and> heap g' r' = heap (run cs) r'"
    if "j \<noteq> i \<and> getCreditLine j (run cs) = Some r'" for j r'
  proof -
    from wf_run [of cs] have "distinct (map snd (store (run cs)))"
      by (simp add: wf_def)
    with that f have "r' \<noteq> r"
      using no_alias [of "store (run cs)" j r i] by (auto simp: getCreditLine_def)
    with that f show ?thesis
      by (simp add: getCreditLine_def)
  qed
  from f obtain e where e: "events (heap g' r) = events (heap (run cs) r) @ [e]"
    by blast
  from f others e show ?thesis
    by simp
qed

theorem transition_frame_witness:
  "exec (Suspend ''t3'' ''a'') (run [Create ''t1'' ''a'' None, Create ''t2'' ''b'' None]) =
     (Line 0, run [Create ''t1'' ''a'' None, Create ''t2'' ''b'' None, Suspend ''t3'' ''a'']) \<and>
   getCreditLine ''b'' (run [Create ''t1'' ''a'' None, Create ''t2'' ''b'' None]) = Some 1 \<and>
   heap (run [Create ''t1'' ''a'' None, Create ''t2'' ''b'' None, Suspend ''t3'' ''a'']) 1 =
     heap (run [Create ''t1'' ''a'' None, Create ''t2'' ''b'' None]) 1 \<and>
   length (events (heap (run [Create ''t1'' ''a'' None, Create ''t2'' ''b'' None, Suspend ''t3'' ''a'']) 0)) = 2"
proof -
  have 1: "exec (Suspend ''t3'' ''a'') (run [Create ''t1'' ''a'' None, Create ''t2'' ''b'' None]) =
     (Line 0, run [Create ''t1'' ''a'' None, Create ''t2'' ''b'' None, Suspend ''t3'' ''a''])"
    by (simp add: run_def empty_registry_def createCreditLine_def suspendCreditLine_def Let_def)
  have 2: "getCreditLine ''b'' (run [Create ''t1'' ''a'' None, Create ''t2'' ''b'' None]) = Some 1"
    by (simp add: run_def empty_registry_def createCreditLine_def getCreditLine_def Let_def)
  have 3: "length (events (heap (run [Create ''t1'' ''a'' None, Create ''t2'' ''b'' None]) 0)) = 1"
    by (simp add: run_def empty_registry_def createCreditLine_def Let_def)
  from transition_frame [OF _ 1, of "''t3''" "''a''"] 1 2 3 show ?thesis
    by simp
qed

subsection \<open>list\<close>

text \<open>
  C7, as stated: after a sequence of creations, \<^verbatim>\<open>listCreditLines()\<close> is the sequence of
  the records created, in the order of creation, without those no longer in the store.
  This fails when an id is created twice: after \<open>a\<close>, \<open>b\<close>, \<open>a\<close> the calls have returned
  the records 0, 1, 2, records 1 and 2 are in the store, and the list is 2, 1.
\<close>

theorem list_creation_order_counterexample:
  "fst (create_all [(''t1'', ''a'', None), (''t2'', ''b'', None), (''t3'', ''a'', None)] empty_registry) = [0, 1, 2] \<and>
   listCreditLines (snd (create_all [(''t1'', ''a'', None), (''t2'', ''b'', None), (''t3'', ''a'', None)]
       empty_registry)) = [2, 1] \<and>
   created_still_present
     (fst (create_all [(''t1'', ''a'', None), (''t2'', ''b'', None), (''t3'', ''a'', None)] empty_registry))
     (snd (create_all [(''t1'', ''a'', None), (''t2'', ''b'', None), (''t3'', ''a'', None)] empty_registry))
     = [1, 2] \<and>
   listCreditLines (snd (create_all [(''t1'', ''a'', None), (''t2'', ''b'', None), (''t3'', ''a'', None)]
       empty_registry)) \<noteq>
   created_still_present
     (fst (create_all [(''t1'', ''a'', None), (''t2'', ''b'', None), (''t3'', ''a'', None)] empty_registry))
     (snd (create_all [(''t1'', ''a'', None), (''t2'', ''b'', None), (''t3'', ''a'', None)] empty_registry))"
  by (simp add: created_still_present_def listCreditLines_def createCreditLine_def
      empty_registry_def Let_def)

text \<open>
  C7, amended. In every registry reached from the empty one, \<^verbatim>\<open>listCreditLines()\<close>
  returns exactly the records bound to some id and leaves the registry as it was. After
  a sequence of creations from the empty registry, it lists one record for each id, the
  ids in the order of their first creation, and the record is the one created last under
  that id; when the ids created are pairwise different, that is the records in the order
  of their creation.
\<close>

theorem list_insertion_order:
  "set (listCreditLines (run ops)) = {r. \<exists>i. getCreditLine i (run ops) = Some r} \<and>
   exec List (run ops) = (Lines (listCreditLines (run ops)), run ops) \<and>
   (let ids = created_ids cs;
        rs = fst (create_all cs empty_registry);
        g = snd (create_all cs empty_registry)
    in map Some (listCreditLines g) = map (map_of (rev (zip ids rs))) (first_seen ids) \<and>
       (distinct ids \<longrightarrow> listCreditLines g = rs))"
proof -
  let ?ids = "created_ids cs"
  let ?rs = "fst (create_all cs empty_registry)"
  let ?g = "snd (create_all cs empty_registry)"
  have "wf ?g"
    by (simp add: create_all_reachable wf_exec_all wf_empty)
  then have d: "distinct (map fst (store ?g))"
    by (simp add: wf_def)
  have keys: "map fst (store ?g) = first_seen ?ids"
    using create_all_keys [of cs empty_registry] by (simp add: empty_registry_def)
  have lookup: "map_of (store ?g) = map_of (rev (zip ?ids ?rs))"
    using create_all_lookup [of cs empty_registry] by (simp add: empty_registry_def)
  have A: "map Some (listCreditLines ?g) = map (map_of (rev (zip ?ids ?rs))) (first_seen ?ids)"
    using values_by_keys [OF d] keys lookup by (simp add: listCreditLines_def)
  have B: "listCreditLines ?g = ?rs" if "distinct ?ids"
  proof -
    have len: "length ?rs = length cs"
      by (rule length_create_all)
    have "length ?ids = length cs"
      by (induction cs) auto
    from that have "store ?g = zip ?ids ?rs"
      using create_all_distinct [of cs empty_registry] by (simp add: empty_registry_def)
    with len \<open>length ?ids = length cs\<close> show ?thesis
      by (simp add: listCreditLines_def)
  qed
  from A B store_records [OF wf_run, of ops] show ?thesis
    by (simp add: Let_def)
qed

theorem list_insertion_order_witness:
  "distinct (created_ids [(''t1'', ''a'', None), (''t2'', ''b'', None)]) \<and>
   listCreditLines (snd (create_all [(''t1'', ''a'', None), (''t2'', ''b'', None)] empty_registry)) =
     fst (create_all [(''t1'', ''a'', None), (''t2'', ''b'', None)] empty_registry) \<and>
   fst (create_all [(''t1'', ''a'', None), (''t2'', ''b'', None)] empty_registry) = [0, 1]"
  using list_insertion_order [of "[]" "[(''t1'', ''a'', None), (''t2'', ''b'', None)]"]
  by (simp add: createCreditLine_def empty_registry_def Let_def)

end
